theory Spec2Isabelle
  imports Complex_Main "HOL-Library.Multiset" "HOL-Library.Char_ord" "HOL-Library.List_Lexorder"
begin

section \<open>Python and library primitives used by app.py\<close>

text \<open>
  The dashboard script \<^verbatim>\<open>app.py\<close> is embedded function by function. Python integers are
  \<open>int\<close>. The numpy arrays of the script hold machine integers; lemma \<open>walk_bounds\<close>
  below bounds every running sum by 1788 and every trend entry by 3287 in absolute
  value, for the draws numpy can hand out, so nothing the script adds up comes near
  the end of a 32-bit integer and \<open>int\<close> is exact.
  A float64 value is recorded as the rational number it denotes, and the arithmetic
  the script does on such values (the multiplication by 100, the rounding to one
  decimal, the mean) is exact arithmetic on rationals: the error of a single float64
  operation, below one part in \<open>10\<^sup>1\<^sup>5\<close>, is not modelled.
\<close>

datatype py_error = KeyError | IndexError | ZeroDivisionError | StreamlitAPIException

type_synonym float64 = rat

text \<open>Python's \<^verbatim>\<open>xs[k:]\<close>: a negative start counts from the end, and the start is clamped.\<close>

definition py_slice_from :: "int \<Rightarrow> 'a list \<Rightarrow> 'a list" where
  "py_slice_from k xs =
     (let n = int (length xs);
          s = (if k < 0 then max 0 (n + k) else min k n)
      in drop (nat s) xs)"

text \<open>Python's \<^verbatim>\<open>xs[j]\<close> on a list: negative indices count from the end, anything else raises.\<close>

definition py_getitem :: "'a list \<Rightarrow> int \<Rightarrow> py_error + 'a" where
  "py_getitem xs j =
     (let n = int (length xs);
          k = (if j < 0 then n + j else j)
      in if 0 \<le> k \<and> k < n then Inr (xs ! nat k) else Inl IndexError)"

text \<open>Python's \<^verbatim>\<open>a % b\<close> on integers: the sign follows the divisor, as HOL's \<open>mod\<close> on \<open>int\<close>.\<close>

definition py_mod :: "int \<Rightarrow> int \<Rightarrow> py_error + int" where
  "py_mod a b = (if b = 0 then Inl ZeroDivisionError else Inr (a mod b))"

text \<open>\<^verbatim>\<open>str(n)\<close> for a natural number, as the f-string \<^verbatim>\<open>f"P{i+201}"\<close> needs it.\<close>

definition digit_char :: "nat \<Rightarrow> char" where
  "digit_char d = char_of (48 + d)"

function py_str :: "nat \<Rightarrow> string" where
  "py_str n = (if n < 10 then [digit_char n] else py_str (n div 10) @ [digit_char (n mod 10)])"
  by pat_completeness auto
termination
  by (relation "measure id") auto

declare py_str.simps [simp del]

text \<open>
  \<^verbatim>\<open>round(x, ndigits)\<close> on a float: the nearest multiple of the \<open>ndigits\<close>-th decimal
  unit, a tie going to the even one, as Python's built-in and numpy's
  \<^verbatim>\<open>rint(x * 10**n) / 10**n\<close> both do.
\<close>

definition np_rint :: "float64 \<Rightarrow> int" where
  "np_rint x =
     (let f = \<lfloor>x\<rfloor>; r = x - of_int f
      in if r < 1 / 2 then f
         else if 1 / 2 < r then f + 1
         else if even f then f else f + 1)"

definition py_round :: "float64 \<Rightarrow> nat \<Rightarrow> float64" where
  "py_round x ndigits = of_int (np_rint (x * 10 ^ ndigits)) / 10 ^ ndigits"

text \<open>\<^verbatim>\<open>np.cumsum\<close>: the running sums of an array.\<close>

fun cumsum_from :: "int \<Rightarrow> int list \<Rightarrow> int list" where
  "cumsum_from acc [] = []"
| "cumsum_from acc (x # xs) = (acc + x) # cumsum_from (acc + x) xs"

definition np_cumsum :: "int list \<Rightarrow> int list" where
  "np_cumsum xs = cumsum_from 0 xs"

text \<open>Broadcasting \<^verbatim>\<open>scalar + array\<close>.\<close>

definition np_add_scalar :: "int \<Rightarrow> int list \<Rightarrow> int list" where
  "np_add_scalar s xs = map (\<lambda>x. s + x) xs"

text \<open>
  \<^verbatim>\<open>np.clip(a, a_min, a_max)\<close> is \<^verbatim>\<open>minimum(a_max, maximum(a, a_min))\<close>; a bound given as
  \<^verbatim>\<open>None\<close> is not applied.
\<close>

definition np_clip :: "int list \<Rightarrow> int option \<Rightarrow> int option \<Rightarrow> int list" where
  "np_clip a a_min a_max =
     map (\<lambda>x. let y = (case a_min of None \<Rightarrow> x | Some lo \<Rightarrow> max x lo)
              in (case a_max of None \<Rightarrow> y | Some hi \<Rightarrow> min hi y)) a"

definition np_sum :: "int list \<Rightarrow> int" where
  "np_sum xs = sum_list xs"

subsection \<open>The random sources\<close>

text \<open>
  The script draws from numpy's and Python's global generators. The model takes the
  values drawn as data and states, for each call, which values the call can return.
  \<^verbatim>\<open>np.random.randint(low, high)\<close> returns an integer from \<open>low\<close> (inclusive) to
  \<open>high\<close> (exclusive); with \<^verbatim>\<open>size=n\<close> it returns \<open>n\<close> of them.
  \<^verbatim>\<open>random.randint(a, b)\<close> of the standard library includes both end points.
\<close>

definition np_random_randint :: "int \<Rightarrow> int \<Rightarrow> int \<Rightarrow> bool" where
  "np_random_randint low high v \<longleftrightarrow> low \<le> v \<and> v < high"

definition np_random_randint_size :: "int \<Rightarrow> int \<Rightarrow> nat \<Rightarrow> int list \<Rightarrow> bool" where
  "np_random_randint_size low high n vs \<longleftrightarrow>
     length vs = n \<and> list_all (np_random_randint low high) vs"

definition random_randint :: "int \<Rightarrow> int \<Rightarrow> int \<Rightarrow> bool" where
  "random_randint a b v \<longleftrightarrow> a \<le> v \<and> v \<le> b"


definition random_choice :: "'a list \<Rightarrow> 'a \<Rightarrow> bool" where
  "random_choice xs v \<longleftrightarrow> v \<in> set xs"

section \<open>generate\_initial\_data\<close>

definition product_names :: "string list" where
  "product_names = [''Aurora Buds'', ''Nova Mug'', ''Zenith Mat'', ''Lumos Lamp'',
                    ''Terra SSD'', ''Helios Charger'', ''Orion Mousepad'']"

definition product_categories_map :: "(string \<times> string) list" where
  "product_categories_map =
     [(''Aurora Buds'', ''Electronics''), (''Nova Mug'', ''Home Goods''),
      (''Zenith Mat'', ''Wellness''), (''Lumos Lamp'', ''Office''),
      (''Terra SSD'', ''Electronics''), (''Helios Charger'', ''Electronics''),
      (''Orion Mousepad'', ''Office'')]"

definition channels :: "string list" where
  "channels = [''Organic'', ''Paid Social'', ''Email'', ''Affiliate'']"

definition num_months :: nat where
  "num_months = 12"

definition stock_levels :: "string list" where
  "stock_levels = [''In Stock'', ''Low'', ''Out'']"

text \<open>One row of the data frame; the field names are the column names of the script.\<close>

record product_record =
  ID :: string
  Name :: string
  Category :: string
  YTD_Revenue :: int
  YTD_Units :: int
  Revenue_Trend :: "int list"
  Units_Trend :: "int list"
  Rating :: float64
  Stock :: string
  Channels_pct :: "(string \<times> float64) list"
  Target_Met_pct :: int

text \<open>
  What one iteration of the loop draws, in the order of the source:
  \<^item> \<open>rev_start\<close>: \<^verbatim>\<open>np.random.randint(300,1500)\<close>;
  \<^item> \<open>rev_steps\<close>: \<^verbatim>\<open>np.random.randint(-100,150,size=num_months)\<close>;
  \<^item> \<open>units_start\<close>: \<^verbatim>\<open>np.random.randint(10,80)\<close>;
  \<^item> \<open>units_steps\<close>: \<^verbatim>\<open>np.random.randint(-10,20,size=num_months)\<close>;
  \<^item> \<open>dirichlet\<close>: \<^verbatim>\<open>np.random.dirichlet(np.ones(len(channels)),size=1)[0]\<close>;
  \<^item> \<open>rating\<close>: \<^verbatim>\<open>random.uniform(3.5,4.9)\<close>;
  \<^item> \<open>stock\<close>: \<^verbatim>\<open>random.choice(["In Stock","Low","Out"])\<close>;
  \<^item> \<open>target_met\<close>: \<^verbatim>\<open>random.randint(60,125)\<close>.
\<close>

record product_draws =
  rev_start :: int
  rev_steps :: "int list"
  units_start :: int
  units_steps :: "int list"
  dirichlet :: "float64 list"
  rating :: float64
  stock :: string
  target_met :: int

definition admissible :: "product_draws \<Rightarrow> bool" where
  "admissible d \<longleftrightarrow>
     np_random_randint 300 1500 (rev_start d) \<and>
     np_random_randint_size (- 100) 150 num_months (rev_steps d) \<and>
     np_random_randint 10 80 (units_start d) \<and>
     np_random_randint_size (- 10) 20 num_months (units_steps d) \<and>
     length (dirichlet d) = length channels \<and>
     random_choice stock_levels (stock d) \<and>
     random_randint 60 125 (target_met d)"

text \<open>The body of the \<^verbatim>\<open>for i, name in enumerate(product_names)\<close> loop.\<close>

definition make_product :: "nat \<Rightarrow> string \<Rightarrow> product_draws \<Rightarrow> py_error + product_record" where
  "make_product i name d =
     (let rev_trend = np_clip (np_add_scalar (rev_start d) (np_cumsum (rev_steps d))) (Some 50) None;
          units_trend = np_clip (np_add_scalar (units_start d) (np_cumsum (units_steps d))) (Some 5) None;
          chan_dist = map (\<lambda>x. x * 100) (dirichlet d)
      in case map_of product_categories_map name of
           None \<Rightarrow> Inl KeyError
         | Some category \<Rightarrow>
             Inr \<lparr> ID = ''P'' @ py_str (i + 201), Name = name, Category = category,
                   YTD_Revenue = np_sum (py_slice_from (- 3) rev_trend),
                   YTD_Units = np_sum (py_slice_from (- 3) units_trend),
                   Revenue_Trend = rev_trend,
                   Units_Trend = units_trend,
                   Rating = py_round (rating d) 1, Stock = stock d,
                   Channels_pct = map (\<lambda>(ch, d). (ch, py_round d 1)) (zip channels chan_dist),
                   Target_Met_pct = target_met d \<rparr>)"

fun products_loop :: "(nat \<Rightarrow> product_draws) \<Rightarrow> nat \<Rightarrow> string list \<Rightarrow> py_error + product_record list" where
  "products_loop draws i [] = Inr []"
| "products_loop draws i (name # names) =
     (case make_product i name (draws i) of
        Inl e \<Rightarrow> Inl e
      | Inr p \<Rightarrow> (case products_loop draws (Suc i) names of
                    Inl e \<Rightarrow> Inl e
                  | Inr ps \<Rightarrow> Inr (p # ps)))"

text \<open>
  The data frame is the list of its rows in order; \<^verbatim>\<open>set_index("ID")\<close> only makes the
  \<open>ID\<close> column the row label.
\<close>

definition generate_initial_data :: "(nat \<Rightarrow> product_draws) \<Rightarrow> py_error + product_record list" where
  "generate_initial_data draws = products_loop draws 0 product_names"

section \<open>Target classification\<close>

text \<open>
  The three labels of the script are \<open>Good\<close>, \<open>Warning\<close> and \<open>Needs Improvement\<close>, each
  behind an emoji.
\<close>

datatype target_status = Good | Warning | Needs_Improvement

definition status_emoji :: "int \<Rightarrow> int \<Rightarrow> int \<Rightarrow> target_status" where
  "status_emoji target_met_val target_good_threshold target_warning_threshold =
     (if target_met_val \<ge> target_good_threshold then Good
      else if target_met_val \<ge> target_warning_threshold then Warning
      else Needs_Improvement)"

section \<open>Overall KPIs\<close>

text \<open>
  \<^verbatim>\<open>Series.sum()\<close> of an empty column is 0. \<^verbatim>\<open>Series.mean()\<close> divides the sum by the
  number of rows when there is one, and is NaN when there is none; it does not raise.
\<close>

datatype float_result = NaN | Finite float64

definition series_sum :: "int list \<Rightarrow> int" where
  "series_sum xs = sum_list xs"

definition series_mean :: "float64 list \<Rightarrow> float_result" where
  "series_mean xs =
     (let count = length xs
      in if count > 0 then Finite (sum_list xs / of_nat count) else NaN)"

definition kpi_total_revenue :: "product_record list \<Rightarrow> int" where
  "kpi_total_revenue df = series_sum (map YTD_Revenue df)"

definition kpi_total_units :: "product_record list \<Rightarrow> int" where
  "kpi_total_units df = series_sum (map YTD_Units df)"

definition kpi_avg_rating :: "product_record list \<Rightarrow> float_result" where
  "kpi_avg_rating df = series_mean (map Rating df)"

section \<open>The comparison grid\<close>

text \<open>
  \<^verbatim>\<open>st.columns(n)\<close> returns \<open>n\<close> containers and refuses a number that is not positive.
  The containers are named by their position.
\<close>

definition st_columns :: "int \<Rightarrow> py_error + nat list" where
  "st_columns spec = (if spec \<le> 0 then Inl StreamlitAPIException else Inr [0..<nat spec])"

text \<open>
  The loop \<^verbatim>\<open>for i, (idx, prod_data) in enumerate(sorted_products_df.iterrows())\<close>:
  each row is rendered into the container \<^verbatim>\<open>comp_cols[i % num_comparison_cols]\<close>.
  The result lists, in order, the container and the row rendered into it.
\<close>

fun render_cards :: "nat list \<Rightarrow> int \<Rightarrow> int \<Rightarrow> 'r list \<Rightarrow> py_error + (nat \<times> 'r) list" where
  "render_cards comp_cols num_comparison_cols i [] = Inr []"
| "render_cards comp_cols num_comparison_cols i (prod_data # rest) =
     (case py_mod i num_comparison_cols of
        Inl e \<Rightarrow> Inl e
      | Inr col_idx \<Rightarrow>
          (case py_getitem comp_cols col_idx of
             Inl e \<Rightarrow> Inl e
           | Inr col \<Rightarrow>
               (case render_cards comp_cols num_comparison_cols (i + 1) rest of
                  Inl e \<Rightarrow> Inl e
                | Inr out \<Rightarrow> Inr ((col, prod_data) # out))))"

definition comparison_grid :: "int \<Rightarrow> 'r list \<Rightarrow> py_error + (nat \<times> 'r) list" where
  "comparison_grid num_comparison_cols sorted_products_df =
     (case st_columns num_comparison_cols of
        Inl e \<Rightarrow> Inl e
      | Inr comp_cols \<Rightarrow> render_cards comp_cols num_comparison_cols 0 sorted_products_df)"

section \<open>Category performance\<close>

text \<open>
  \<^verbatim>\<open>df_products.groupby("Category")["YTD Revenue"].sum()\<close>: every row adds its revenue
  to the total of its category; the groups come out ordered by their key.
\<close>

fun group_add :: "string \<Rightarrow> int \<Rightarrow> (string \<times> int) list \<Rightarrow> (string \<times> int) list" where
  "group_add c v [] = [(c, v)]"
| "group_add c v ((k, t) # g) = (if k = c then (k, t + v) # g else (k, t) # group_add c v g)"

definition groupby_sum :: "product_record list \<Rightarrow> (string \<times> int) list" where
  "groupby_sum df =
     sort_key fst (foldl (\<lambda>g p. group_add (Category p) (YTD_Revenue p) g) [] df)"

text \<open>The total an accumulator holds for a category, 0 when the category has no entry.\<close>

definition total_of :: "(string \<times> int) list \<Rightarrow> string \<Rightarrow> int" where
  "total_of g c = (case map_of g c of None \<Rightarrow> 0 | Some t \<Rightarrow> t)"

text \<open>
  \<^verbatim>\<open>Series.sort_values(ascending=True)\<close> is pandas' own code. It is taken as a parameter
  \<open>sort_values\<close>, of which only the contract is used: the result holds the same entries
  and its values ascend. Nothing is assumed on the order of entries with equal values.
\<close>

definition sorts_ascending :: "((string \<times> int) list \<Rightarrow> (string \<times> int) list) \<Rightarrow> bool" where
  "sorts_ascending sort_values \<longleftrightarrow>
     (\<forall>s. mset (sort_values s) = mset s \<and> sorted (map snd (sort_values s)))"

definition category_performance ::
  "((string \<times> int) list \<Rightarrow> (string \<times> int) list) \<Rightarrow> product_record list \<Rightarrow> (string \<times> int) list" where
  "category_performance sort_values df = sort_values (groupby_sum df)"

section \<open>The cached data frame\<close>

text \<open>
  \<^verbatim>\<open>@st.cache_data\<close> keeps the value a function returned, keyed by its arguments, for the
  life of the server process; \<^verbatim>\<open>generate_initial_data\<close> has no argument, so there is one
  entry. A call that finds the entry returns it and does not run the body. Streamlit
  runs the whole script again on every interaction; line 40 is the only statement that
  can change the state, and every later statement builds new values from \<open>df_products\<close>.
  \<open>entropy k\<close> is what the random sources hand out to the \<open>k\<close>-th execution of the body.
\<close>

record app_state =
  cache :: "product_record list option"
  executions :: nat

definition initial_state :: app_state where
  "initial_state = \<lparr> cache = None, executions = 0 \<rparr>"

definition cached_generate_initial_data ::
  "(nat \<Rightarrow> nat \<Rightarrow> product_draws) \<Rightarrow> app_state \<Rightarrow> (py_error + product_record list) \<times> app_state" where
  "cached_generate_initial_data entropy s =
     (case cache s of
        Some df \<Rightarrow> (Inr df, s)
      | None \<Rightarrow>
          (let s' = s\<lparr> executions := Suc (executions s) \<rparr>
           in case generate_initial_data (entropy (executions s)) of
                Inl e \<Rightarrow> (Inl e, s')
              | Inr df \<Rightarrow> (Inr df, s'\<lparr> cache := Some df \<rparr>)))"

definition script_run :: "(nat \<Rightarrow> nat \<Rightarrow> product_draws) \<Rightarrow> app_state \<Rightarrow> app_state" where
  "script_run entropy s = snd (cached_generate_initial_data entropy s)"

section \<open>Sample draws\<close>

text \<open>
  Draws on which the statements below are evaluated; the revenue walk meets its floor and
  two of the channel shares, 12.25 and 37.75, lie half way between two tenths.
\<close>

definition sample_draws :: "nat \<Rightarrow> product_draws" where
  "sample_draws i =
     \<lparr> rev_start = 300 + 150 * int i,
       rev_steps = [- 100, - 100, - 100, - 100, 149, 149, 0, 25, - 60, 149, - 100, 7],
       units_start = 10 + 9 * int i,
       units_steps = [- 10, 19, 0, 3, - 10, - 10, - 10, 19, 19, - 2, 5, 1],
       dirichlet = [49 / 400, 1 / 3, 1 / 6, 151 / 400],
       rating = 4 + of_nat (i mod 3) / 8,
       stock = ''Low'',
       target_met = 60 + 10 * int i \<rparr>"

definition sample_catalog :: "product_record list" where
  "sample_catalog = (case generate_initial_data sample_draws of Inr df \<Rightarrow> df | Inl e \<Rightarrow> [])"

section \<open>Auxiliary facts\<close>

subsection \<open>Random walks\<close>

lemma length_cumsum_from: "length (cumsum_from a xs) = length xs"
  by (induction xs arbitrary: a) simp_all

lemma nth_cumsum_from:
  "k < length xs \<Longrightarrow> cumsum_from a xs ! k = a + sum_list (take (Suc k) xs)"
proof (induction xs arbitrary: a k)
  case Nil
  then show ?case by simp
next
  case (Cons x xs)
  show ?case
  proof (cases k)
    case 0
    then show ?thesis by simp
  next
    case (Suc j)
    with Cons.prems have "j < length xs" by simp
    from Cons.IH [OF this, of "a + x"] Suc show ?thesis by simp
  qed
qed

lemma length_walk:
  "length (np_clip (np_add_scalar s (np_cumsum steps)) (Some f) None) = length steps"
  by (simp add: np_clip_def np_add_scalar_def np_cumsum_def length_cumsum_from)

lemma nth_walk:
  assumes "k < length steps"
  shows "np_clip (np_add_scalar s (np_cumsum steps)) (Some f) None ! k
           = max (s + sum_list (take (Suc k) steps)) f"
  using assms
  by (simp add: np_clip_def np_add_scalar_def np_cumsum_def length_cumsum_from nth_cumsum_from)

lemma py_slice_last3: "py_slice_from (- 3) xs = rev (take 3 (rev xs))"
  by (simp add: py_slice_from_def Let_def take_rev nat_diff_distrib' max_def)

lemma admissible_lengths:
  assumes "admissible d"
  shows "length (rev_steps d) = 12" and "length (units_steps d) = 12"
  using assms by (simp_all add: admissible_def np_random_randint_size_def num_months_def)

lemma sum_list_randint_bounds:
  "list_all (np_random_randint lo hi) xs \<Longrightarrow>
     lo * int (length xs) \<le> sum_list xs \<and> sum_list xs \<le> (hi - 1) * int (length xs)"
  by (induction xs) (auto simp: np_random_randint_def algebra_simps)

lemma list_all_take: "list_all P xs \<Longrightarrow> list_all P (take n xs)"
  by (auto simp: list_all_iff dest: in_set_takeD)

lemma prefix_sum_bounds:
  assumes "np_random_randint_size lo hi n xs" and "k < n"
  shows "lo * (int k + 1) \<le> sum_list (take (Suc k) xs)"
    and "sum_list (take (Suc k) xs) \<le> (hi - 1) * (int k + 1)"
proof -
  from assms have len: "length (take (Suc k) xs) = Suc k"
    by (simp add: np_random_randint_size_def)
  from assms have "list_all (np_random_randint lo hi) (take (Suc k) xs)"
    by (simp add: np_random_randint_size_def list_all_take)
  from sum_list_randint_bounds [OF this] len
  show "lo * (int k + 1) \<le> sum_list (take (Suc k) xs)"
    and "sum_list (take (Suc k) xs) \<le> (hi - 1) * (int k + 1)"
    by (simp_all add: algebra_simps)
qed

subsection \<open>The loop over the products\<close>

lemma category_known:
  "name \<in> set product_names \<Longrightarrow> \<exists>c. map_of product_categories_map name = Some c"
  by (auto simp: product_names_def product_categories_map_def)

lemma make_product_Inr:
  assumes "map_of product_categories_map name = Some c"
  shows "\<exists>p. make_product i name d = Inr p"
  using assms by (simp add: make_product_def Let_def)

lemma products_loop_rows:
  assumes "set names \<subseteq> set product_names"
  shows "\<exists>ps. products_loop draws i names = Inr ps \<and> length ps = length names \<and>
              (\<forall>k<length names. make_product (i + k) (names ! k) (draws (i + k)) = Inr (ps ! k))"
  using assms
proof (induction names arbitrary: i)
  case Nil
  then show ?case by simp
next
  case (Cons name names)
  from Cons.prems obtain c where "map_of product_categories_map name = Some c"
    using category_known by auto
  then obtain p where p: "make_product i name (draws i) = Inr p"
    using make_product_Inr by blast
  from Cons.prems have "set names \<subseteq> set product_names" by simp
  from Cons.IH [OF this, of "Suc i"] obtain ps where
    ps: "products_loop draws (Suc i) names = Inr ps" "length ps = length names"
        "\<forall>k<length names. make_product (Suc i + k) (names ! k) (draws (Suc i + k)) = Inr (ps ! k)"
    by blast
  have "\<forall>k<length (name # names).
          make_product (i + k) ((name # names) ! k) (draws (i + k)) = Inr ((p # ps) ! k)"
  proof (intro allI impI)
    fix k assume "k < length (name # names)"
    then show "make_product (i + k) ((name # names) ! k) (draws (i + k)) = Inr ((p # ps) ! k)"
      using p ps(3) by (cases k) simp_all
  qed
  with p ps(1,2) show ?case by simp
qed

lemma generate_rows:
  "\<exists>df. generate_initial_data draws = Inr df \<and> length df = length product_names \<and>
        (\<forall>k<length product_names. make_product k (product_names ! k) (draws k) = Inr (df ! k))"
  using products_loop_rows [of product_names draws 0] by (simp add: generate_initial_data_def)

lemma make_product_fields:
  assumes "make_product i name d = Inr p"
  shows "Revenue_Trend p = np_clip (np_add_scalar (rev_start d) (np_cumsum (rev_steps d))) (Some 50) None"
    and "Units_Trend p = np_clip (np_add_scalar (units_start d) (np_cumsum (units_steps d))) (Some 5) None"
    and "YTD_Revenue p = np_sum (py_slice_from (- 3) (Revenue_Trend p))"
    and "YTD_Units p = np_sum (py_slice_from (- 3) (Units_Trend p))"
  using assms by (auto simp: make_product_def Let_def split: option.splits)

lemma walk_bounds:
  assumes "admissible d" and "make_product i name d = Inr p"
  shows "list_all (\<lambda>x. - 1200 \<le> x \<and> x \<le> 1788) (np_cumsum (rev_steps d))"
    and "list_all (\<lambda>x. - 120 \<le> x \<and> x \<le> 228) (np_cumsum (units_steps d))"
    and "list_all (\<lambda>x. 50 \<le> x \<and> x \<le> 3287) (Revenue_Trend p)"
    and "list_all (\<lambda>x. 5 \<le> x \<and> x \<le> 307) (Units_Trend p)"
proof -
  note len = admissible_lengths [OF assms(1)]
  from assms(1) have rs: "np_random_randint_size (- 100) 150 12 (rev_steps d)"
    and us: "np_random_randint_size (- 10) 20 12 (units_steps d)"
    and r0: "300 \<le> rev_start d" "rev_start d < 1500"
    and u0: "10 \<le> units_start d" "units_start d < 80"
    by (simp_all add: admissible_def num_months_def np_random_randint_def)
  have rb: "- 1200 \<le> sum_list (take (Suc k) (rev_steps d)) \<and>
            sum_list (take (Suc k) (rev_steps d)) \<le> 1788" if "k < 12" for k
    using prefix_sum_bounds [OF rs that] that by simp
  have ub: "- 120 \<le> sum_list (take (Suc k) (units_steps d)) \<and>
            sum_list (take (Suc k) (units_steps d)) \<le> 228" if "k < 12" for k
    using prefix_sum_bounds [OF us that] that by simp
  show "list_all (\<lambda>x. - 1200 \<le> x \<and> x \<le> 1788) (np_cumsum (rev_steps d))"
    unfolding list_all_length np_cumsum_def
    using rb by (simp add: length_cumsum_from nth_cumsum_from len)
  show "list_all (\<lambda>x. - 120 \<le> x \<and> x \<le> 228) (np_cumsum (units_steps d))"
    unfolding list_all_length np_cumsum_def
    using ub by (simp add: length_cumsum_from nth_cumsum_from len)
  show "list_all (\<lambda>x. 50 \<le> x \<and> x \<le> 3287) (Revenue_Trend p)"
    unfolding list_all_length make_product_fields(1) [OF assms(2)]
  proof (intro allI impI)
    fix k assume "k < length (np_clip (np_add_scalar (rev_start d) (np_cumsum (rev_steps d))) (Some 50) None)"
    then have k: "k < 12" by (simp add: length_walk len)
    with rb [OF k] r0 show "50 \<le> np_clip (np_add_scalar (rev_start d) (np_cumsum (rev_steps d))) (Some 50) None ! k \<and>
        np_clip (np_add_scalar (rev_start d) (np_cumsum (rev_steps d))) (Some 50) None ! k \<le> 3287"
      by (simp add: nth_walk len)
  qed
  show "list_all (\<lambda>x. 5 \<le> x \<and> x \<le> 307) (Units_Trend p)"
    unfolding list_all_length make_product_fields(2) [OF assms(2)]
  proof (intro allI impI)
    fix k assume "k < length (np_clip (np_add_scalar (units_start d) (np_cumsum (units_steps d))) (Some 5) None)"
    then have k: "k < 12" by (simp add: length_walk len)
    with ub [OF k] u0 show "5 \<le> np_clip (np_add_scalar (units_start d) (np_cumsum (units_steps d))) (Some 5) None ! k \<and>
        np_clip (np_add_scalar (units_start d) (np_cumsum (units_steps d))) (Some 5) None ! k \<le> 307"
      by (simp add: nth_walk len)
  qed
qed

subsection \<open>Rounding and the channel shares\<close>









subsection \<open>The sample draws\<close>

lemma sample_draws_admissible: "admissible (sample_draws i)" if "i < 7"
proof -
  from that have "i = 0 \<or> i = 1 \<or> i = 2 \<or> i = 3 \<or> i = 4 \<or> i = 5 \<or> i = 6" by arith
  then show ?thesis
    by (auto simp: admissible_def sample_draws_def np_random_randint_def
        np_random_randint_size_def random_randint_def random_choice_def num_months_def
        channels_def stock_levels_def)
qed

lemma sample_trends:
  "map Revenue_Trend sample_catalog =
     [[200, 100, 50, 50, 50, 198, 198, 223, 163, 312, 212, 219],
      [350, 250, 150, 50, 199, 348, 348, 373, 313, 462, 362, 369],
      [500, 400, 300, 200, 349, 498, 498, 523, 463, 612, 512, 519],
      [650, 550, 450, 350, 499, 648, 648, 673, 613, 762, 662, 669],
      [800, 700, 600, 500, 649, 798, 798, 823, 763, 912, 812, 819],
      [950, 850, 750, 650, 799, 948, 948, 973, 913, 1062, 962, 969],
      [1100, 1000, 900, 800, 949, 1098, 1098, 1123, 1063, 1212, 1112, 1119]]"
  by code_simp

lemma sample_category_performance:
  "category_performance (sort_key snd) sample_catalog =
     [(''Home Goods'', 1193), (''Wellness'', 1643), (''Office'', 5536), (''Electronics'', 6279)]"
  by code_simp


lemma admissible_update_rev_start:
  "admissible d \<Longrightarrow> 300 \<le> v \<Longrightarrow> v \<le> 1499 \<Longrightarrow> admissible (d\<lparr> rev_start := v \<rparr>)"
  by (simp add: admissible_def np_random_randint_def)

lemma admissible_update_units_start:
  "admissible d \<Longrightarrow> 10 \<le> v \<Longrightarrow> v \<le> 79 \<Longrightarrow> admissible (d\<lparr> units_start := v \<rparr>)"
  by (simp add: admissible_def np_random_randint_def)

lemma admissible_update_rev_steps:
  "admissible d \<Longrightarrow> - 100 \<le> v \<Longrightarrow> v \<le> 149 \<Longrightarrow> admissible (d\<lparr> rev_steps := replicate 12 v \<rparr>)"
  by (simp add: admissible_def np_random_randint_def np_random_randint_size_def num_months_def list_all_iff)

lemma admissible_update_units_steps:
  "admissible d \<Longrightarrow> - 10 \<le> v \<Longrightarrow> v \<le> 19 \<Longrightarrow> admissible (d\<lparr> units_steps := replicate 12 v \<rparr>)"
  by (simp add: admissible_def np_random_randint_def np_random_randint_size_def num_months_def list_all_iff)

subsection \<open>The comparison grid\<close>

lemma render_cards_ok:
  assumes "1 \<le> n" and "0 \<le> i"
  shows "\<exists>out. render_cards [0..<nat n] n i rows = Inr out \<and> length out = length rows \<and>
               (\<forall>k<length rows. out ! k = (nat ((i + int k) mod n), rows ! k))"
  using assms(2)
proof (induction rows arbitrary: i)
  case Nil
  then show ?case by simp
next
  case (Cons r rows)
  from assms(1) Cons.prems have m: "0 \<le> i mod n" "i mod n < n" by simp_all
  from assms(1) have pm: "py_mod i n = Inr (i mod n)" by (simp add: py_mod_def)
  from m have gi: "py_getitem [0..<nat n] (i mod n) = Inr (nat (i mod n))"
    by (simp add: py_getitem_def Let_def)
  from Cons.prems have "0 \<le> i + 1" by simp
  from Cons.IH [OF this] obtain out where
    out: "render_cards [0..<nat n] n (i + 1) rows = Inr out" "length out = length rows"
         "\<forall>k<length rows. out ! k = (nat ((i + 1 + int k) mod n), rows ! k)"
    by blast
  have "\<forall>k<length (r # rows). ((nat (i mod n), r) # out) ! k = (nat ((i + int k) mod n), (r # rows) ! k)"
  proof (intro allI impI)
    fix k assume "k < length (r # rows)"
    then show "((nat (i mod n), r) # out) ! k = (nat ((i + int k) mod n), (r # rows) ! k)"
      using out(3) by (cases k) (simp_all add: algebra_simps)
  qed
  with pm gi out(1,2) show ?case by simp
qed

lemma grid_out_of_range:
  "render_cards [0, 1, 2] 4 0 [''a'', ''b'', ''c'', ''d''] = Inl IndexError"
  "comparison_grid 0 [''a''] = Inl StreamlitAPIException"
  by (simp_all add: comparison_grid_def st_columns_def py_mod_def py_getitem_def Let_def)

subsection \<open>Grouping by category\<close>

lemma keys_group_add: "fst ` set (group_add c v g) = insert c (fst ` set g)"
  by (induction c v g rule: group_add.induct) (simp_all add: insert_commute)

lemma distinct_group_add:
  "distinct (map fst g) \<Longrightarrow> distinct (map fst (group_add c v g))"
proof (induction g)
  case Nil
  then show ?case by simp
next
  case (Cons kv g)
  obtain k t where kv: "kv = (k, t)" by (cases kv)
  from Cons show ?case
    using keys_group_add [of c v g] by (auto simp: kv)
qed

lemma map_of_group_add:
  "map_of (group_add c v g) k =
     (if k = c then Some ((case map_of g c of None \<Rightarrow> 0 | Some t \<Rightarrow> t) + v) else map_of g k)"
  by (induction c v g rule: group_add.induct) auto

lemma total_group_add:
  "total_of (group_add c v g) k = (if k = c then total_of g c + v else total_of g k)"
  by (simp add: total_of_def map_of_group_add)

lemma keys_accumulate:
  "fst ` set (foldl (\<lambda>g p. group_add (Category p) (YTD_Revenue p) g) g0 df)
     = fst ` set g0 \<union> Category ` set df"
  by (induction df arbitrary: g0) (auto simp: keys_group_add)

lemma distinct_accumulate:
  "distinct (map fst g0) \<Longrightarrow>
   distinct (map fst (foldl (\<lambda>g p. group_add (Category p) (YTD_Revenue p) g) g0 df))"
  by (induction df arbitrary: g0) (simp_all add: distinct_group_add)

lemma total_accumulate:
  "total_of (foldl (\<lambda>g p. group_add (Category p) (YTD_Revenue p) g) g0 df) c
     = total_of g0 c + sum_list (map YTD_Revenue (filter (\<lambda>p. Category p = c) df))"
  by (induction df arbitrary: g0) (auto simp: total_group_add)

lemma total_of_member:
  "distinct (map fst g) \<Longrightarrow> (c, t) \<in> set g \<Longrightarrow> total_of g c = t"
  by (simp add: total_of_def)

lemma groupby_sum_props:
  shows "fst ` set (groupby_sum df) = Category ` set df"
    and "distinct (map fst (groupby_sum df))"
    and "(c, t) \<in> set (groupby_sum df) \<Longrightarrow>
           t = sum_list (map YTD_Revenue (filter (\<lambda>p. Category p = c) df))"
    and "sorted (map fst (groupby_sum df))"
proof -
  let ?acc = "foldl (\<lambda>g p. group_add (Category p) (YTD_Revenue p) g) [] df"
  show "fst ` set (groupby_sum df) = Category ` set df"
    using keys_accumulate [of "[]" df] by (simp add: groupby_sum_def)
  have d: "distinct (map fst ?acc)" by (rule distinct_accumulate) simp
  have "mset (map fst (groupby_sum df)) = mset (map fst ?acc)"
    by (simp add: groupby_sum_def)
  with d show "distinct (map fst (groupby_sum df))"
    by (metis mset_eq_imp_distinct_iff)
  show "sorted (map fst (groupby_sum df))" by (simp add: groupby_sum_def)
  assume "(c, t) \<in> set (groupby_sum df)"
  then have "(c, t) \<in> set ?acc" by (simp add: groupby_sum_def)
  from total_of_member [OF d this] total_accumulate [of "[]" df c]
  show "t = sum_list (map YTD_Revenue (filter (\<lambda>p. Category p = c) df))"
    by (simp add: total_of_def)
qed

lemma sort_key_snd_sorts: "sorts_ascending (sort_key snd)"
  by (simp add: sorts_ascending_def)

subsection \<open>The cache\<close>

lemma script_run_cached: "cache s = Some df \<Longrightarrow> script_run entropy s = s"
  by (simp add: script_run_def cached_generate_initial_data_def)

lemma funpow_script_run_cached: "cache s = Some df \<Longrightarrow> (script_run entropy ^^ n) s = s"
  by (induction n) (simp_all add: script_run_cached)

section \<open>The dataset\<close>

text \<open>
  Claim C1. Whatever the random sources hand out, \<open>generate_initial_data\<close> returns
  the seven rows, and in every row \<open>YTD Revenue\<close> is the sum of the last three entries of
  \<open>Revenue Trend\<close> and \<open>YTD Units\<close> the sum of the last three entries of \<open>Units Trend\<close>:
  the most recent quarter, not the year. The last three entries are written
  \<open>rev (take 3 (rev xs))\<close>, independently of the slice the script takes.
\<close>

theorem ytd_is_last_quarter:
  "\<exists>df. generate_initial_data draws = Inr df \<and> length df = length product_names \<and>
        list_all (\<lambda>p. YTD_Revenue p = sum_list (rev (take 3 (rev (Revenue_Trend p)))) \<and>
                      YTD_Units p = sum_list (rev (take 3 (rev (Units_Trend p))))) df"
proof -
  from generate_rows [of draws] obtain df where
    df: "generate_initial_data draws = Inr df" "length df = length product_names"
        "\<forall>k<length product_names. make_product k (product_names ! k) (draws k) = Inr (df ! k)"
    by blast
  have "YTD_Revenue p = sum_list (rev (take 3 (rev (Revenue_Trend p)))) \<and>
        YTD_Units p = sum_list (rev (take 3 (rev (Units_Trend p))))" if "p \<in> set df" for p
  proof -
    from that obtain k where "k < length df" "df ! k = p" by (auto simp: in_set_conv_nth)
    with df(2,3) have "make_product k (product_names ! k) (draws k) = Inr p" by auto
    from make_product_fields(3,4) [OF this] show ?thesis
      by (simp only: np_sum_def py_slice_last3)
  qed
  with df(1,2) show ?thesis by (auto simp: list_all_iff)
qed

theorem ytd_is_last_quarter_witness:
  "\<exists>df. generate_initial_data sample_draws = Inr df \<and>
        map YTD_Revenue df = [743, 1193, 1643, 2093, 2543, 2993, 3443]"
proof -
  from ytd_is_last_quarter [of sample_draws] obtain df where
    df: "generate_initial_data sample_draws = Inr df"
    and q: "list_all (\<lambda>p. YTD_Revenue p = sum_list (rev (take 3 (rev (Revenue_Trend p)))) \<and>
                          YTD_Units p = sum_list (rev (take 3 (rev (Units_Trend p))))) df"
    by blast
  from df have same: "df = sample_catalog" by (simp add: sample_catalog_def)
  from q have "map YTD_Revenue df
                 = map (\<lambda>t. sum_list (rev (take 3 (rev t)))) (map Revenue_Trend df)"
    by (simp add: list_all_iff)
  also have "\<dots> = [743, 1193, 1643, 2093, 2543, 2993, 3443]"
    by (simp only: same sample_trends) simp
  finally have "map YTD_Revenue df = [743, 1193, 1643, 2093, 2543, 2993, 3443]" .
  with df show ?thesis by (intro exI [of _ df]) simp
qed

text \<open>
  Claim C2. For every row whose draws are ones the random sources can hand out, both
  trends have exactly 12 entries, no entry of the revenue trend is below 50 and none of
  the units trend below 5, and every entry is the value of the walk (the start plus the
  sum of the steps so far) whenever that value is not below the floor, and the floor
  otherwise: nothing bounds an entry from above.
\<close>

theorem trend_length_and_floor:
  assumes "i < length product_names" and "admissible (draws i)"
  shows "\<exists>df. generate_initial_data draws = Inr df \<and> length df = length product_names \<and>
          length (Revenue_Trend (df ! i)) = 12 \<and> length (Units_Trend (df ! i)) = 12 \<and>
          list_all (\<lambda>x. x \<ge> 50) (Revenue_Trend (df ! i)) \<and>
          list_all (\<lambda>x. x \<ge> 5) (Units_Trend (df ! i)) \<and>
          (\<forall>k<12. let raw = rev_start (draws i) + sum_list (take (Suc k) (rev_steps (draws i)))
                   in Revenue_Trend (df ! i) ! k = (if raw \<ge> 50 then raw else 50)) \<and>
          (\<forall>k<12. let raw = units_start (draws i) + sum_list (take (Suc k) (units_steps (draws i)))
                   in Units_Trend (df ! i) ! k = (if raw \<ge> 5 then raw else 5))"
proof -
  from generate_rows [of draws] obtain df where
    df: "generate_initial_data draws = Inr df" "length df = length product_names"
        "\<forall>k<length product_names. make_product k (product_names ! k) (draws k) = Inr (df ! k)"
    by blast
  from df(3) assms(1) have mk: "make_product i (product_names ! i) (draws i) = Inr (df ! i)"
    by blast
  note rev = make_product_fields(1) [OF mk] and units = make_product_fields(2) [OF mk]
  note len = admissible_lengths [OF assms(2)]
  have l1: "length (Revenue_Trend (df ! i)) = 12" by (simp add: rev length_walk len)
  have l2: "length (Units_Trend (df ! i)) = 12" by (simp add: units length_walk len)
  have n1: "Revenue_Trend (df ! i) ! k
              = max (rev_start (draws i) + sum_list (take (Suc k) (rev_steps (draws i)))) 50"
    if "k < 12" for k using that by (simp only: rev) (simp add: nth_walk len)
  have n2: "Units_Trend (df ! i) ! k
              = max (units_start (draws i) + sum_list (take (Suc k) (units_steps (draws i)))) 5"
    if "k < 12" for k using that by (simp only: units) (simp add: nth_walk len)
  have f1: "list_all (\<lambda>x. x \<ge> 50) (Revenue_Trend (df ! i))"
    unfolding list_all_length using l1 n1 by simp
  have f2: "list_all (\<lambda>x. x \<ge> 5) (Units_Trend (df ! i))"
    unfolding list_all_length using l2 n2 by simp
  have u1: "\<forall>k<12. let raw = rev_start (draws i) + sum_list (take (Suc k) (rev_steps (draws i)))
                   in Revenue_Trend (df ! i) ! k = (if raw \<ge> 50 then raw else 50)"
    using n1 by (simp add: Let_def max_def)
  have u2: "\<forall>k<12. let raw = units_start (draws i) + sum_list (take (Suc k) (units_steps (draws i)))
                   in Units_Trend (df ! i) ! k = (if raw \<ge> 5 then raw else 5)"
    using n2 by (simp add: Let_def max_def)
  from df(1,2) l1 l2 f1 f2 u1 u2 show ?thesis by blast
qed

theorem trend_length_and_floor_witness:
  "3 < length product_names \<and> admissible (sample_draws 3) \<and>
   (\<exists>df. generate_initial_data sample_draws = Inr df \<and>
         length (Revenue_Trend (df ! 3)) = 12 \<and>
         list_all (\<lambda>x. x \<ge> 50) (Revenue_Trend (df ! 3)) \<and>
         list_all (\<lambda>x. x \<ge> 5) (Units_Trend (df ! 3)))"
proof -
  have a: "3 < length product_names" by (simp add: product_names_def)
  have b: "admissible (sample_draws 3)" by (rule sample_draws_admissible) simp
  from trend_length_and_floor [of 3 sample_draws, OF a b] a b show ?thesis by blast
qed

text \<open>
  Claim C6, as the specification states it, gives both end points of each range to the
  draws. The draws of the script are numpy's, which leave the upper end point out: a
  record of draws with revenue start 1500, a revenue step 150, units start 80 or a
  units step 20 is not one the sources can hand out.
\<close>

theorem upper_end_points_not_drawn:
  "admissible (sample_draws 0) \<and>
   \<not> admissible ((sample_draws 0)\<lparr> rev_start := 1500 \<rparr>) \<and>
   \<not> admissible ((sample_draws 0)\<lparr> rev_steps := replicate 12 150 \<rparr>) \<and>
   \<not> admissible ((sample_draws 0)\<lparr> units_start := 80 \<rparr>) \<and>
   \<not> admissible ((sample_draws 0)\<lparr> units_steps := replicate 12 20 \<rparr>)"
proof -
  have "admissible (sample_draws 0)" by (rule sample_draws_admissible) simp
  moreover have "\<not> admissible ((sample_draws 0)\<lparr> rev_start := 1500 \<rparr>)"
    by (simp add: admissible_def np_random_randint_def)
  moreover have "\<not> admissible ((sample_draws 0)\<lparr> rev_steps := replicate 12 150 \<rparr>)"
    by (simp add: admissible_def np_random_randint_size_def np_random_randint_def list_all_iff)
  moreover have "\<not> admissible ((sample_draws 0)\<lparr> units_start := 80 \<rparr>)"
    by (simp add: admissible_def np_random_randint_def)
  moreover have "\<not> admissible ((sample_draws 0)\<lparr> units_steps := replicate 12 20 \<rparr>)"
    by (simp add: admissible_def np_random_randint_size_def np_random_randint_def list_all_iff)
  ultimately show ?thesis by blast
qed

text \<open>
  Claim C6, amended. A trend has 12 steps. The revenue start takes exactly the values
  300 to 1499, a revenue step exactly the values -100 to 149, the units start exactly
  the values 10 to 79 and a units step exactly the values -10 to 19: each of these
  values is drawn by some admissible record of draws, and no other value is.
\<close>

theorem draws_half_open_ranges:
  "(admissible d \<longrightarrow> length (rev_steps d) = 12 \<and> length (units_steps d) = 12) \<and>
   ((\<exists>d. admissible d \<and> rev_start d = a) \<longleftrightarrow> 300 \<le> a \<and> a \<le> 1499) \<and>
   ((\<exists>d. admissible d \<and> b \<in> set (rev_steps d)) \<longleftrightarrow> - 100 \<le> b \<and> b \<le> 149) \<and>
   ((\<exists>d. admissible d \<and> units_start d = c) \<longleftrightarrow> 10 \<le> c \<and> c \<le> 79) \<and>
   ((\<exists>d. admissible d \<and> e \<in> set (units_steps d)) \<longleftrightarrow> - 10 \<le> e \<and> e \<le> 19)"
proof -
  have s0: "admissible (sample_draws 0)" by (rule sample_draws_admissible) simp
  have len: "admissible d \<longrightarrow> length (rev_steps d) = 12 \<and> length (units_steps d) = 12"
    by (simp add: admissible_lengths)
  have rs: "(\<exists>d. admissible d \<and> rev_start d = a) \<longleftrightarrow> 300 \<le> a \<and> a \<le> 1499"
  proof
    assume "\<exists>d. admissible d \<and> rev_start d = a"
    then show "300 \<le> a \<and> a \<le> 1499"
      by (auto simp: admissible_def np_random_randint_def)
  next
    assume "300 \<le> a \<and> a \<le> 1499"
    then have "admissible ((sample_draws 0)\<lparr> rev_start := a \<rparr>)"
      using admissible_update_rev_start [OF s0] by simp
    then show "\<exists>d. admissible d \<and> rev_start d = a"
      by (intro exI [of _ "(sample_draws 0)\<lparr> rev_start := a \<rparr>"]) simp
  qed
  have us: "(\<exists>d. admissible d \<and> units_start d = c) \<longleftrightarrow> 10 \<le> c \<and> c \<le> 79"
  proof
    assume "\<exists>d. admissible d \<and> units_start d = c"
    then show "10 \<le> c \<and> c \<le> 79"
      by (auto simp: admissible_def np_random_randint_def)
  next
    assume "10 \<le> c \<and> c \<le> 79"
    then have "admissible ((sample_draws 0)\<lparr> units_start := c \<rparr>)"
      using admissible_update_units_start [OF s0] by simp
    then show "\<exists>d. admissible d \<and> units_start d = c"
      by (intro exI [of _ "(sample_draws 0)\<lparr> units_start := c \<rparr>"]) simp
  qed
  have rd: "(\<exists>d. admissible d \<and> b \<in> set (rev_steps d)) \<longleftrightarrow> - 100 \<le> b \<and> b \<le> 149"
  proof
    assume "\<exists>d. admissible d \<and> b \<in> set (rev_steps d)"
    then show "- 100 \<le> b \<and> b \<le> 149"
      by (auto simp: admissible_def np_random_randint_size_def np_random_randint_def list_all_iff)
  next
    assume "- 100 \<le> b \<and> b \<le> 149"
    then have "admissible ((sample_draws 0)\<lparr> rev_steps := replicate 12 b \<rparr>)"
      using admissible_update_rev_steps [OF s0] by simp
    then show "\<exists>d. admissible d \<and> b \<in> set (rev_steps d)"
      by (intro exI [of _ "(sample_draws 0)\<lparr> rev_steps := replicate 12 b \<rparr>"]) simp
  qed
  have ud: "(\<exists>d. admissible d \<and> e \<in> set (units_steps d)) \<longleftrightarrow> - 10 \<le> e \<and> e \<le> 19"
  proof
    assume "\<exists>d. admissible d \<and> e \<in> set (units_steps d)"
    then show "- 10 \<le> e \<and> e \<le> 19"
      by (auto simp: admissible_def np_random_randint_size_def np_random_randint_def list_all_iff)
  next
    assume "- 10 \<le> e \<and> e \<le> 19"
    then have "admissible ((sample_draws 0)\<lparr> units_steps := replicate 12 e \<rparr>)"
      using admissible_update_units_steps [OF s0] by simp
    then show "\<exists>d. admissible d \<and> e \<in> set (units_steps d)"
      by (intro exI [of _ "(sample_draws 0)\<lparr> units_steps := replicate 12 e \<rparr>"]) simp
  qed
  from len rs rd us ud show ?thesis by blast
qed

theorem draws_half_open_ranges_witness:
  "admissible (sample_draws 0) \<and> length (rev_steps (sample_draws 0)) = 12 \<and>
   length (units_steps (sample_draws 0)) = 12 \<and>
   (\<exists>d. admissible d \<and> rev_start d = 1499) \<and> \<not> (\<exists>d. admissible d \<and> rev_start d = 1500) \<and>
   (\<exists>d. admissible d \<and> 149 \<in> set (rev_steps d)) \<and> \<not> (\<exists>d. admissible d \<and> 150 \<in> set (rev_steps d)) \<and>
   (\<exists>d. admissible d \<and> units_start d = 79) \<and> \<not> (\<exists>d. admissible d \<and> units_start d = 80) \<and>
   (\<exists>d. admissible d \<and> 19 \<in> set (units_steps d)) \<and> \<not> (\<exists>d. admissible d \<and> 20 \<in> set (units_steps d))"
proof -
  have s0: "admissible (sample_draws 0)" by (rule sample_draws_admissible) simp
  from draws_half_open_ranges [of "sample_draws 0" 1499 149 79 19]
       draws_half_open_ranges [of "sample_draws 0" 1500 150 80 20] s0
  show ?thesis by simp
qed



section \<open>The cached catalog\<close>

text \<open>
  Claim C3. Starting from the empty cache, the access of every run of the script, the
  first and each later one, returns the same data frame, the one built from what the
  random sources handed out to the first execution, and leaves the cache holding that
  data frame with the body executed exactly once. From any state, a second access
  returns what the first returned and changes nothing.
\<close>

theorem catalog_memoized:
  "(\<exists>df. generate_initial_data (entropy 0) = Inr df \<and>
         cached_generate_initial_data entropy ((script_run entropy ^^ n) initial_state)
           = (Inr df, \<lparr> cache = Some df, executions = 1 \<rparr>)) \<and>
   (let (r1, s1) = cached_generate_initial_data entropy s;
        (r2, s2) = cached_generate_initial_data entropy s1
    in r2 = r1 \<and> s2 = s1)"
proof
  from generate_rows [of "entropy 0"] obtain df where df: "generate_initial_data (entropy 0) = Inr df"
    by blast
  let ?s1 = "\<lparr> cache = Some df, executions = 1 \<rparr>"
  have first: "cached_generate_initial_data entropy initial_state = (Inr df, ?s1)"
    by (simp add: cached_generate_initial_data_def initial_state_def df)
  have later: "cached_generate_initial_data entropy ?s1 = (Inr df, ?s1)"
    by (simp add: cached_generate_initial_data_def)
  have "cached_generate_initial_data entropy ((script_run entropy ^^ n) initial_state) = (Inr df, ?s1)"
  proof (cases n)
    case 0
    with first show ?thesis by simp
  next
    case (Suc m)
    have "(script_run entropy ^^ Suc m) initial_state = (script_run entropy ^^ m) (script_run entropy initial_state)"
      by (simp only: funpow_Suc_right o_apply)
    also have "script_run entropy initial_state = ?s1" by (simp add: script_run_def first)
    also have "(script_run entropy ^^ m) ?s1 = ?s1" by (rule funpow_script_run_cached [of _ df]) simp
    finally show ?thesis using later Suc by simp
  qed
  with df show "\<exists>df. generate_initial_data (entropy 0) = Inr df \<and>
         cached_generate_initial_data entropy ((script_run entropy ^^ n) initial_state)
           = (Inr df, \<lparr> cache = Some df, executions = 1 \<rparr>)" by blast
next
  from generate_rows [of "entropy (executions s)"] obtain df where
    df: "generate_initial_data (entropy (executions s)) = Inr df" by blast
  show "let (r1, s1) = cached_generate_initial_data entropy s;
        (r2, s2) = cached_generate_initial_data entropy s1
    in r2 = r1 \<and> s2 = s1"
    by (cases "cache s") (simp_all add: cached_generate_initial_data_def df)
qed

section \<open>Views\<close>

text \<open>
  Claim C4. For every integer attainment value and every pair of thresholds with the
  warning threshold not above the good threshold, the status is Good exactly when the
  value reaches the good threshold, Warning exactly when it is below the good threshold
  and reaches the warning threshold, and Needs Improvement exactly when it is below the
  warning threshold. With thresholds 100 and 80 the values 100, 85 and 50 are classified
  Good, Warning and Needs Improvement.
\<close>

theorem status_emoji_classifies:
  assumes "warn \<le> good"
  shows "(status_emoji t good warn = Good \<longleftrightarrow> t \<ge> good) \<and>
         (status_emoji t good warn = Warning \<longleftrightarrow> t < good \<and> t \<ge> warn) \<and>
         (status_emoji t good warn = Needs_Improvement \<longleftrightarrow> t < warn) \<and>
         status_emoji 100 100 80 = Good \<and>
         status_emoji 85 100 80 = Warning \<and>
         status_emoji 50 100 80 = Needs_Improvement"
  using assms by (auto simp: status_emoji_def)

theorem status_emoji_classifies_witness:
  "(80::int) \<le> 100 \<and> status_emoji 85 100 80 = Warning \<and> status_emoji 79 100 80 = Needs_Improvement"
proof -
  have le: "(80::int) \<le> 100" by simp
  from status_emoji_classifies [OF le, of 85] status_emoji_classifies [OF le, of 79]
  show ?thesis by simp
qed

text \<open>
  Claim C8. For every data frame and every sorting routine that meets the contract of
  \<^verbatim>\<open>sort_values(ascending=True)\<close>, the category performance has one entry for each
  category present in the data frame and no other, the entry of a category holds the
  sum of \<open>YTD Revenue\<close> over exactly the rows of that category, and the totals ascend.
\<close>

theorem category_totals_ascending:
  assumes "sorts_ascending sort_values"
  shows "fst ` set (category_performance sort_values df) = Category ` set df \<and>
         distinct (map fst (category_performance sort_values df)) \<and>
         list_all (\<lambda>(c, total). total = sum_list (map YTD_Revenue (filter (\<lambda>p. Category p = c) df)))
           (category_performance sort_values df) \<and>
         sorted (map snd (category_performance sort_values df))"
proof -
  let ?cp = "category_performance sort_values df"
  from assms have m: "mset ?cp = mset (groupby_sum df)" and s: "sorted (map snd ?cp)"
    by (simp_all add: sorts_ascending_def category_performance_def)
  from m have set_eq: "set ?cp = set (groupby_sum df)" by (rule mset_eq_setD)
  from m have "mset (map fst ?cp) = mset (map fst (groupby_sum df))" by simp
  then have d: "distinct (map fst ?cp)"
    using groupby_sum_props(2) [of df] by (metis mset_eq_imp_distinct_iff)
  have k: "fst ` set ?cp = Category ` set df"
    using set_eq groupby_sum_props(1) [of df] by simp
  have v: "list_all (\<lambda>(c, total). total = sum_list (map YTD_Revenue (filter (\<lambda>p. Category p = c) df))) ?cp"
    unfolding list_all_iff set_eq using groupby_sum_props(3) [of _ _ df] by auto
  from k d v s show ?thesis by blast
qed

theorem category_totals_ascending_witness:
  "sorts_ascending (sort_key snd) \<and>
   fst ` set (category_performance (sort_key snd) sample_catalog) = Category ` set sample_catalog \<and>
   category_performance (sort_key snd) sample_catalog =
     [(''Home Goods'', 1193), (''Wellness'', 1643), (''Office'', 5536), (''Electronics'', 6279)]"
proof -
  have c: "sorts_ascending (sort_key snd)" by (rule sort_key_snd_sorts)
  from category_totals_ascending [OF c, of sample_catalog]
  have "fst ` set (category_performance (sort_key snd) sample_catalog) = Category ` set sample_catalog"
    by blast
  with c sample_category_performance show ?thesis by blast
qed

text \<open>
  Claim C9. On a data frame without rows the two sums are 0 and the mean of the ratings
  is NaN: each of the three is a value, none an error.
\<close>

theorem empty_catalog_kpis:
  "kpi_total_revenue [] = 0 \<and> kpi_total_units [] = 0 \<and> kpi_avg_rating [] = NaN"
  by (simp add: kpi_total_revenue_def kpi_total_units_def kpi_avg_rating_def
      series_sum_def series_mean_def)

text \<open>
  Claim C10. For every number of columns from 1 to 7 and every list of rows, the grid
  is rendered without an error: the row at position \<open>i\<close> goes to the container at index
  \<open>i mod n\<close>, which is below \<open>n\<close>, the number of containers created.
\<close>

theorem grid_column_in_range:
  assumes "1 \<le> n" and "n \<le> 7"
  shows "\<exists>out. comparison_grid n rows = Inr out \<and> length out = length rows \<and>
               (\<forall>i<length rows. fst (out ! i) = nat (int i mod n) \<and>
                                  fst (out ! i) < nat n \<and> snd (out ! i) = rows ! i)"
proof -
  from assms(1) have cols: "st_columns n = Inr [0..<nat n]" by (simp add: st_columns_def)
  from render_cards_ok [OF assms(1), of 0 rows] obtain out where
    out: "render_cards [0..<nat n] n 0 rows = Inr out" "length out = length rows"
         "\<forall>k<length rows. out ! k = (nat ((0 + int k) mod n), rows ! k)"
    by auto
  have "fst (out ! i) = nat (int i mod n) \<and> fst (out ! i) < nat n \<and> snd (out ! i) = rows ! i"
    if "i < length rows" for i
  proof -
    from out(3) that have "out ! i = (nat (int i mod n), rows ! i)" by simp
    moreover from assms(1) have "int i mod n < n" by simp
    moreover from assms(1) have "0 \<le> int i mod n" by simp
    ultimately show ?thesis using assms(1) by simp
  qed
  then have every: "\<forall>i<length rows. fst (out ! i) = nat (int i mod n) \<and>
                                  fst (out ! i) < nat n \<and> snd (out ! i) = rows ! i"
    by blast
  have "comparison_grid n rows = Inr out"
    using cols out(1) by (simp add: comparison_grid_def)
  with out(2) every show ?thesis by blast
qed

theorem grid_column_in_range_witness:
  "(1::int) \<le> 3 \<and> (3::int) \<le> 7 \<and>
   comparison_grid 3 [''a'', ''b'', ''c'', ''d'', ''e''] =
     Inr [(0, ''a''), (1, ''b''), (2, ''c''), (0, ''d''), (1, ''e'')]"
proof -
  have a: "(1::int) \<le> 3" and b: "(3::int) \<le> 7" by simp_all
  from grid_column_in_range [OF a b, of "[''a'', ''b'', ''c'', ''d'', ''e'']"]
  obtain out where out: "comparison_grid 3 [''a'', ''b'', ''c'', ''d'', ''e''] = Inr out"
    by blast
  have "comparison_grid 3 [''a'', ''b'', ''c'', ''d'', ''e''] =
     Inr [(0, ''a''), (1, ''b''), (2, ''c''), (0, ''d''), (1, ''e'')]"
    by (simp add: comparison_grid_def st_columns_def py_mod_def py_getitem_def Let_def upt_rec)
  with out have "out = [(0, ''a''), (1, ''b''), (2, ''c''), (0, ''d''), (1, ''e'')]" by simp
  with out a b show ?thesis by simp
qed

end
